theory Spec2Isabelle
  imports Complex_Main "HOL-Library.Word"
begin

section \<open>Research planner: texts, interactions and the remote client\<close>

text \<open>
  The agent module (\<^verbatim>\<open>research_planner_executor_agent.py\<close>) works on Python strings.
  Here a text is a \<^typ>\<open>string\<close>, a list of 8-bit characters read as the code points
  0 to 255. On that range Python's \<^verbatim>\<open>\d\<close> is exactly the ten ASCII digits and
  \<^verbatim>\<open>\s\<close> / \<^verbatim>\<open>str.isspace\<close> exactly the twelve characters of \<open>isspace\<close> below.
\<close>

abbreviation NL :: char where
  "NL \<equiv> CHR 0x0A"

definition isspace :: "char \<Rightarrow> bool" where
  "isspace c \<longleftrightarrow> c \<in> set [CHR 0x09, CHR 0x0A, CHR 0x0B, CHR 0x0C, CHR 0x0D,
     CHR 0x1C, CHR 0x1D, CHR 0x1E, CHR 0x1F, CHR 0x20, CHR 0x85, CHR 0xA0]"

definition isdigit :: "char \<Rightarrow> bool" where
  "isdigit c \<longleftrightarrow> c \<in> set ''0123456789''"

text \<open>\<^verbatim>\<open>sep.join(parts)\<close>.\<close>

fun join :: "'a list \<Rightarrow> 'a list list \<Rightarrow> 'a list" where
  "join sep [] = []"
| "join sep [x] = x"
| "join sep (x # y # ys) = x @ sep @ join sep (y # ys)"

text \<open>\<^verbatim>\<open>s.strip()\<close>: whitespace removed at both ends.\<close>

definition strip :: "string \<Rightarrow> string" where
  "strip s = rev (dropWhile isspace (rev (dropWhile isspace s)))"

text \<open>\<^verbatim>\<open>s.replace('\n', ' ')\<close>.\<close>

definition replace_newlines :: "string \<Rightarrow> string" where
  "replace_newlines s = map (\<lambda>c. if c = NL then CHR '' '' else c) s"

text \<open>
  Every exception of class \<^verbatim>\<open>Exception\<close> that a call of the remote client raises is a
  value \<open>RemoteError msg\<close>. An output item of an interaction either carries a text or
  not (\<^verbatim>\<open>hasattr(o, 'text') and o.text\<close> is false for a missing attribute, for
  \<^verbatim>\<open>None\<close> and for the empty text).
\<close>

datatype error = RemoteError string

datatype out_item = Output (otext: "string option")

record interaction =
  interaction_id :: string
  status :: string
  outputs :: "out_item list"

text \<open>
  \<^verbatim>\<open>
  def get_text(outputs: list) -> str:
      if not outputs:
          return ""
      return "\n".join(o.text for o in outputs if hasattr(o, 'text') and o.text) or ""
  \<close>
\<close>

definition get_text :: "out_item list \<Rightarrow> string" where
  "get_text outs =
     (if outs = [] then []
      else join [NL] (List.map_filter
             (\<lambda>out. case otext out of None \<Rightarrow> None
                     | Some t \<Rightarrow> if t = [] then None else Some t) outs))"

section \<open>The task parser\<close>

text \<open>
  \<^verbatim>\<open>
  def parse_tasks(text: str) -> list[dict]:
      tasks = []
      pattern = r'^(\d+)[\.\)\-]\s*(.+?)(?=\n\d+[\.\)\-]|\n\n|\Z)'
      matches = re.finditer(pattern, text, re.MULTILINE | re.DOTALL)
      for match in matches:
          num = match.group(1)
          task_text = match.group(2).strip().replace('\n', ' ')
          tasks.append({"num": num, "text": task_text})
      return tasks
  \<close>
  A task is the dictionary with the keys \<^verbatim>\<open>num\<close> and \<^verbatim>\<open>text\<close>.
\<close>

record task =
  num :: string
  task_text :: string

text \<open>
  The pattern is matched the way Python's backtracking matcher does it, piece by piece.
  \<^item> \<^verbatim>\<open>[\.\)\-]\<close> is one of the three separators.
  \<^item> The look-ahead \<^verbatim>\<open>(?=\n\d+[\.\)\-]|\n\n|\Z)\<close> holds at a position when the rest of
    the text is a newline, one or more digits and a separator (\<open>item_ahead\<close>; the
    digits and the separator are \<open>starts_item\<close>), or
    starts with two newlines, or is empty. A separator is no digit, so only the longest
    run of digits can be followed by one.
  \<^item> \<^verbatim>\<open>(.+?)\<close> is lazy and, with \<^verbatim>\<open>DOTALL\<close>, takes any character: after its first
    character it takes one more for as long as the look-ahead fails (\<open>lazy_body\<close>
    gives the characters after the first). The look-ahead holds at the end of the text,
    so this always ends.
\<close>

definition is_separator :: "char \<Rightarrow> bool" where
  "is_separator c \<longleftrightarrow> c \<in> set ''.)-''"

definition starts_item :: "string \<Rightarrow> bool" where
  "starts_item s \<longleftrightarrow>
     takeWhile isdigit s \<noteq> [] \<and>
     (case dropWhile isdigit s of [] \<Rightarrow> False | d # r \<Rightarrow> is_separator d)"

definition item_ahead :: "string \<Rightarrow> bool" where
  "item_ahead s = (case s of [] \<Rightarrow> False | c # cs \<Rightarrow> c = NL \<and> starts_item cs)"

definition lookahead :: "string \<Rightarrow> bool" where
  "lookahead s \<longleftrightarrow> item_ahead s \<or> take 2 s = [NL, NL] \<or> s = []"

fun lazy_body :: "string \<Rightarrow> string" where
  "lazy_body [] = []"
| "lazy_body (c # cs) = (if lookahead (c # cs) then [] else c # lazy_body cs)"

text \<open>
  \<open>match_item s\<close> is the match of the pattern after \<^verbatim>\<open>^\<close>, at the start of \<open>s\<close>:
  group 1, group 2 and the text after the match, or \<open>None\<close>. \<^verbatim>\<open>(\d+)\<close> takes the
  longest run of digits, which must not be empty and must be followed by a separator.
  \<^verbatim>\<open>\s*\<close> is greedy: it takes all the whitespace that follows, and the body starts at
  the first character that is no whitespace. When nothing but whitespace follows the
  separator, the matcher backtracks: \<^verbatim>\<open>\s*\<close> gives back its last character, which
  becomes the body. When nothing follows the separator there is no match.
\<close>

definition match_item :: "string \<Rightarrow> (string \<times> string \<times> string) option" where
  "match_item s =
     (let ds = takeWhile isdigit s in
      if ds = [] then None
      else case dropWhile isdigit s of
          [] \<Rightarrow> None
        | sep # s2 \<Rightarrow>
            if \<not> is_separator sep then None
            else (case dropWhile isspace s2 of
                x # s4 \<Rightarrow> Some (ds, x # lazy_body s4, drop (length (lazy_body s4)) s4)
              | [] \<Rightarrow> if s2 = [] then None else Some (ds, [last s2], [])))"

text \<open>
  \<^verbatim>\<open>re.finditer\<close> with \<^verbatim>\<open>MULTILINE\<close>: the text is scanned from the left; \<open>bol\<close> says
  that the position is the start of the text or follows a newline, the places where
  \<^verbatim>\<open>^\<close> matches. After a match the scan goes on where the match ended (a match is never
  empty), and that place follows a newline when the body ended with one. The result is
  the list of the groups 1 and 2 of the matches.
\<close>

function finditer :: "bool \<Rightarrow> string \<Rightarrow> (string \<times> string) list" where
  "finditer bol [] = []"
| "finditer bol (c # cs) =
     (if bol then
        (case match_item (c # cs) of
           Some (g1, g2, rest) \<Rightarrow> (g1, g2) # finditer (last g2 = NL) rest
         | None \<Rightarrow> finditer (c = NL) cs)
      else finditer (c = NL) cs)"
  by pat_completeness auto
termination
proof (relation "measure (\<lambda>(bol, s). length s)", goal_cases)
  case 1
  show ?case by simp
next
  case (2 bol c cs)
  show ?case by simp
next
  case (3 bol c cs m g1 y g2 rest)
  then have m: "match_item (c # cs) = Some (g1, g2, rest)" by simp
  have len: "length (dropWhile isdigit (c # cs)) \<le> length (c # cs)"
    by (rule length_dropWhile_le)
  from m obtain sep s2 where s2: "dropWhile isdigit (c # cs) = sep # s2"
    by (auto simp: match_item_def Let_def split: list.splits if_splits)
  from m s2 have "length rest \<le> length (dropWhile isspace s2)"
    by (auto simp: match_item_def Let_def split: list.splits if_splits)
  also have "\<dots> \<le> length s2"
    by (rule length_dropWhile_le)
  finally have "length rest < length (c # cs)"
    using len s2 by simp
  then show ?case by simp
next
  case (4 bol c cs)
  show ?case by simp
qed

definition parse_tasks :: "string \<Rightarrow> task list" where
  "parse_tasks plan =
     map (\<lambda>(g1, g2). \<lparr>num = g1, task_text = replace_newlines (strip g2)\<rparr>)
       (finditer True plan)"

text \<open>
  Numbered plans in the shape the pattern is written for. An item is an integer, a
  separator right after it, any whitespace, and a body of one or more lines: no line is
  empty, the first starts with a character that is no whitespace, and none of the
  others starts with digits and a separator. Items follow each other on new lines, with
  \<open>item_blank\<close> blank lines after an item. \<open>task_of\<close> is the task an item stands
  for: its number, and its lines joined by single blanks and trimmed.
\<close>

record item =
  item_num :: string
  item_sep :: char
  item_gap :: string
  item_lines :: "string list"
  item_blank :: nat

definition item_body :: "item \<Rightarrow> string" where
  "item_body it = join [NL] (item_lines it)"

definition wellformed :: "item \<Rightarrow> bool" where
  "wellformed it \<longleftrightarrow>
     item_num it \<noteq> [] \<and> list_all isdigit (item_num it) \<and> is_separator (item_sep it) \<and>
     list_all isspace (item_gap it) \<and>
     item_lines it \<noteq> [] \<and> list_all (\<lambda>l. l \<noteq> [] \<and> NL \<notin> set l) (item_lines it) \<and>
     \<not> isspace (hd (hd (item_lines it))) \<and>
     list_all (\<lambda>l. \<not> starts_item l) (tl (item_lines it))"

definition render_item :: "item \<Rightarrow> string" where
  "render_item it = item_num it @ item_sep it # item_gap it @ item_body it"

fun render_plan :: "item list \<Rightarrow> string" where
  "render_plan [] = []"
| "render_plan [it] = render_item it"
| "render_plan (it # it' # its) =
     render_item it @ NL # replicate (item_blank it) NL @ render_plan (it' # its)"

definition task_of :: "item \<Rightarrow> task" where
  "task_of it = \<lparr>num = item_num it, task_text = strip (join '' '' (item_lines it))\<rparr>"

section \<open>The completion poller\<close>

text \<open>
  \<^verbatim>\<open>
  POLLING_INTERVAL = 3  # seconds
  TIMEOUT = 300  # seconds

  def wait_for_completion(client, interaction_id, timeout = TIMEOUT):
      elapsed = 0
      while elapsed < timeout:
          try:
              interaction = client.interactions.get(interaction_id)
              if interaction.status != "in_progress":
                  return interaction
              time.sleep(POLLING_INTERVAL)
              elapsed += POLLING_INTERVAL
          except Exception as e:
              st.error(f"Error checking status: {e}")
              break
      return client.interactions.get(interaction_id)
  \<close>
  The status client \<^verbatim>\<open>client.interactions.get(interaction_id)\<close> is the sequence \<open>get\<close>
  of its answers: \<open>get n\<close> is what query number \<open>n\<close> (counted from 0) returns or raises.
  The loop carries \<open>elapsed\<close> and the number \<open>n\<close> of queries made so far. The result
  records what the call returns or raises (\<open>returned\<close>), how many queries it made
  (\<open>queries\<close>), whether the query after the loop was made (\<open>final_query\<close>) and the
  seconds slept (\<open>waited\<close>, the last value of \<open>elapsed\<close>). The progress bar and the
  status line are display only and are left out.
\<close>

definition POLLING_INTERVAL :: int where
  "POLLING_INTERVAL = 3"

definition TIMEOUT :: int where
  "TIMEOUT = 300"

record poll =
  returned :: "error + interaction"
  queries :: nat
  final_query :: bool
  waited :: int

function wait_loop :: "(nat \<Rightarrow> error + interaction) \<Rightarrow> int \<Rightarrow> int \<Rightarrow> nat \<Rightarrow> poll" where
  "wait_loop get timeout elapsed n =
     (if elapsed < timeout then
        (case get n of
           Inl e \<Rightarrow>
             \<lparr>returned = get (Suc n), queries = Suc (Suc n), final_query = True,
              waited = elapsed\<rparr>
         | Inr i \<Rightarrow>
             if status i \<noteq> ''in_progress''
             then \<lparr>returned = Inr i, queries = Suc n, final_query = False, waited = elapsed\<rparr>
             else wait_loop get timeout (elapsed + POLLING_INTERVAL) (Suc n))
      else \<lparr>returned = get n, queries = Suc n, final_query = True, waited = elapsed\<rparr>)"
  by pat_completeness auto
termination
  by (relation "measure (\<lambda>(get, timeout, elapsed, n). nat (timeout - elapsed))")
     (auto simp: POLLING_INTERVAL_def)

declare wait_loop.simps [simp del]

definition wait_for_completion :: "(nat \<Rightarrow> error + interaction) \<Rightarrow> int \<Rightarrow> poll" where
  "wait_for_completion get timeout = wait_loop get timeout 0 0"

text \<open>
  A status client given by the state of the job over time: query number \<open>n\<close> is made
  after \<open>n\<close> sleeps, at second \<open>n * POLLING_INTERVAL\<close>, and reports the state the job
  has then. \<open>completes_at job t\<close>: the job is \<^verbatim>\<open>in_progress\<close> before second \<open>t\<close> and
  not from \<open>t\<close> on.
\<close>

definition timed_client :: "(int \<Rightarrow> interaction) \<Rightarrow> nat \<Rightarrow> error + interaction" where
  "timed_client job n = Inr (job (int n * POLLING_INTERVAL))"

definition completes_at :: "(int \<Rightarrow> interaction) \<Rightarrow> int \<Rightarrow> bool" where
  "completes_at job t \<longleftrightarrow> 0 \<le> t \<and> (\<forall>t'. status (job t') = ''in_progress'' \<longleftrightarrow> t' < t)"

text \<open>\<open>in_progress get n\<close>: query \<open>n\<close> succeeds and reports \<^verbatim>\<open>in_progress\<close>.\<close>

definition in_progress :: "(nat \<Rightarrow> error + interaction) \<Rightarrow> nat \<Rightarrow> bool" where
  "in_progress get n \<longleftrightarrow> (case get n of Inl e \<Rightarrow> False | Inr i \<Rightarrow> status i = ''in_progress'')"

section \<open>The phase orchestrator\<close>

text \<open>
  The session state of \<^verbatim>\<open>init_session_state\<close>: seven keys, \<^verbatim>\<open>None\<close> or the empty list
  at the start. \<^verbatim>\<open>init_session_state\<close> adds the keys that are missing: all of them
  on the first run of the script, when there is no session state yet (\<open>None\<close>), and
  none afterwards, since no key is ever removed. \<^verbatim>\<open>reset_session_state\<close> assigns the
  values of the start to all seven keys.
\<close>

type_synonym bytes = "8 word list"

record session =
  plan_id :: "string option"
  plan_text :: "string option"
  tasks :: "task list"
  research_id :: "string option"
  research_text :: "string option"
  synthesis_text :: "string option"
  infographic :: "bytes option"

definition defaults :: session where
  "defaults = \<lparr>plan_id = None, plan_text = None, tasks = [], research_id = None,
     research_text = None, synthesis_text = None, infographic = None\<rparr>"

definition init_session_state :: "session option \<Rightarrow> session" where
  "init_session_state st = (case st of None \<Rightarrow> defaults | Some s \<Rightarrow> s)"

definition reset_session_state :: "session \<Rightarrow> session" where
  "reset_session_state s =
     s\<lparr>plan_id := None, plan_text := None, tasks := [], research_id := None,
       research_text := None, synthesis_text := None, infographic := None\<rparr>"

text \<open>
  The remote client. A request is the keyword arguments of
  \<^verbatim>\<open>client.interactions.create\<close>; the answer of \<^verbatim>\<open>client.models.generate_content\<close> is
  a list of candidates, whose content is a list of parts, each with or without inline
  data. The client of one run of the script is what its three calls answer or raise:
  \<open>interactions_get c i n\<close> is the answer to query number \<open>n\<close> for the interaction
  \<open>i\<close>.
\<close>

record request =
  model :: "string option"
  agent :: "string option"
  input :: string
  tools :: "string list"
  previous_interaction_id :: "string option"
  background :: bool
  store :: bool

datatype blob = Blob (data: "bytes option")

datatype part = Part (inline_data: "blob option")

datatype content = Content (parts: "part list")

datatype candidate = Candidate (content: "content option")

datatype response = Response (candidates: "candidate list")

record client =
  interactions_create :: "request \<Rightarrow> error + interaction"
  interactions_get :: "string \<Rightarrow> nat \<Rightarrow> error + interaction"
  models_generate_content :: "string \<Rightarrow> string \<Rightarrow> error + response"

text \<open>
  What the user did before a run of the script: the texts typed into the two inputs, the
  state of the check boxes by key, and the button that was clicked. A button returns
  \<^verbatim>\<open>True\<close> only in the run that its click started, so at most one button is clicked
  in a run, and a disabled button is never clicked. The keys of the check boxes
  (\<^verbatim>\<open>f"t{task['num']}"\<close>) are taken to be distinct.
\<close>

datatype button = NoButton | Reset | GeneratePlan | StartResearch | GenerateReport

record ui =
  api_key :: string
  research_goal :: string
  checked :: "string \<Rightarrow> bool"
  clicked :: button

text \<open>Python's truth value of an optional text or byte string.\<close>

definition truthy :: "'a list option \<Rightarrow> bool" where
  "truthy v \<longleftrightarrow> (case v of None \<Rightarrow> False | Some x \<Rightarrow> x \<noteq> [])"

text \<open>An optional text inside an f-string: \<^verbatim>\<open>None\<close> prints as its name.\<close>

definition format_opt :: "string option \<Rightarrow> string" where
  "format_opt v = (case v of None \<Rightarrow> ''None'' | Some t \<Rightarrow> t)"

definition MODEL_PLANNER :: string where
  "MODEL_PLANNER = ''gemini-3-flash-preview''"

definition MODEL_RESEARCH_AGENT :: string where
  "MODEL_RESEARCH_AGENT = ''deep-research-pro-preview-12-2025''"

definition MODEL_SYNTHESIS :: string where
  "MODEL_SYNTHESIS = ''gemini-3-pro-preview''"

definition MODEL_IMAGE :: string where
  "MODEL_IMAGE = ''gemini-3-pro-image-preview''"

definition plan_request :: "string \<Rightarrow> request" where
  "plan_request goal =
     \<lparr>model = Some MODEL_PLANNER, agent = None,
      input = ''Create a numbered research plan for: '' @ goal @ [NL, NL] @
              ''Format: 1. [Task] - [Details]'' @ [NL, NL] @ ''Include 5-8 specific tasks.'',
      tools = [''google_search''], previous_interaction_id = None,
      background = False, store = True\<rparr>"

definition selected_tasks :: "ui \<Rightarrow> session \<Rightarrow> string list" where
  "selected_tasks u s =
     map (\<lambda>t. num t @ ''. '' @ task_text t)
       (filter (\<lambda>t. checked u (''t'' @ num t)) (tasks s))"

definition research_request :: "string list \<Rightarrow> session \<Rightarrow> request" where
  "research_request selected s =
     \<lparr>model = None, agent = Some MODEL_RESEARCH_AGENT,
      input = ''Research these tasks thoroughly with sources:'' @ [NL, NL] @
              join [NL, NL] selected,
      tools = [], previous_interaction_id = plan_id s,
      background = True, store = True\<rparr>"

definition synthesis_request :: "session \<Rightarrow> request" where
  "synthesis_request s =
     \<lparr>model = Some MODEL_SYNTHESIS, agent = None,
      input = ''Create executive report with Summary, Findings, Recommendations, Risks:'' @
              [NL, NL] @ format_opt (research_text s),
      tools = [], previous_interaction_id = research_id s,
      background = False, store = True\<rparr>"

definition image_prompt :: "string \<Rightarrow> string" where
  "image_prompt t = ''Create a whiteboard summary infographic for the following: '' @ t"

text \<open>
  Phase 1 of \<^verbatim>\<open>main\<close>:
  \<^verbatim>\<open>
  if st.button("Generate Plan", disabled=not research_goal, type="primary"):
      try:
          interaction = client.interactions.create(model=MODEL_PLANNER, ...)
          st.session_state.plan_id = interaction.id
          st.session_state.plan_text = get_text(interaction.outputs)
          st.session_state.tasks = parse_tasks(st.session_state.plan_text)
      except Exception as e:
          st.error(f"Error during planning: {e}")
  \<close>
\<close>

definition plan_phase :: "ui \<Rightarrow> client \<Rightarrow> session \<Rightarrow> session" where
  "plan_phase u c s =
     (if clicked u = GeneratePlan \<and> research_goal u \<noteq> [] then
        (case interactions_create c (plan_request (research_goal u)) of
           Inl e \<Rightarrow> s
         | Inr i \<Rightarrow>
             s\<lparr>plan_id := Some (interaction_id i),
               plan_text := Some (get_text (outputs i)),
               tasks := parse_tasks (get_text (outputs i))\<rparr>)
      else s)"

text \<open>
  Phase 2. \<^verbatim>\<open>st.rerun()\<close> and \<^verbatim>\<open>st.stop()\<close> end the run of the script (they raise
  outside the class \<^verbatim>\<open>Exception\<close>, so the handlers do not catch them): a phase says
  whether the script goes on (\<open>Continue\<close>) or the run ends (\<open>EndRun\<close>).
  \<^verbatim>\<open>
  if st.session_state.plan_text:
      selected_tasks = []
      for task in st.session_state.tasks:
          is_selected = st.checkbox(..., value=True, key=f"t{task['num']}")
          if is_selected:
              selected_tasks.append(f"{task['num']}. {task['text']}")
      if st.button("Start Deep Research", type="primary", disabled=not selected_tasks):
          try:
              tasks_str = "\n\n".join(selected_tasks)
              interaction = client.interactions.create(agent=MODEL_RESEARCH_AGENT, ...)
              interaction = wait_for_completion(client, interaction.id)
              st.session_state.research_id = interaction.id
              st.session_state.research_text = (get_text(interaction.outputs)
                                                or f"Status: {interaction.status}")
              st.rerun()
          except Exception as e:
              st.error(f"Error during research: {e}")
  \<close>
\<close>

datatype 'a flow = Continue 'a | EndRun 'a

definition research_phase :: "ui \<Rightarrow> client \<Rightarrow> session \<Rightarrow> session flow" where
  "research_phase u c s =
     (if truthy (plan_text s) \<and> clicked u = StartResearch \<and> selected_tasks u s \<noteq> [] then
        (case interactions_create c (research_request (selected_tasks u s) s) of
           Inl e \<Rightarrow> Continue s
         | Inr i \<Rightarrow>
            (case returned (wait_for_completion (interactions_get c (interaction_id i)) TIMEOUT) of
               Inl e \<Rightarrow> Continue s
             | Inr i' \<Rightarrow>
                 EndRun (s\<lparr>research_id := Some (interaction_id i'),
                   research_text := Some (if get_text (outputs i') = []
                      then ''Status: '' @ status i' else get_text (outputs i'))\<rparr>)))
      else Continue s)"

text \<open>
  Phase 3. The scan of the parts keeps the data of the first part that has inline data.
  \<^verbatim>\<open>
  if st.session_state.research_id:
      if st.button("Generate Executive Report", type="primary"):
          try:
              interaction = client.interactions.create(model=MODEL_SYNTHESIS, ...)
              st.session_state.synthesis_text = get_text(interaction.outputs)
          except Exception as e:
              st.error(f"Error during synthesis: {e}")
              st.stop()
          try:
              response = client.models.generate_content(model=MODEL_IMAGE, contents=...)
              if (response.candidates and response.candidates[0].content
                      and response.candidates[0].content.parts):
                  for part in response.candidates[0].content.parts:
                      if hasattr(part, 'inline_data') and part.inline_data:
                          st.session_state.infographic = part.inline_data.data
                          break
          except Exception as e:
              st.warning(f"Infographic generation failed (optional step): {e}")
          st.rerun()
  \<close>
\<close>

fun first_inline :: "part list \<Rightarrow> blob option" where
  "first_inline [] = None"
| "first_inline (p # ps) = (case inline_data p of Some b \<Rightarrow> Some b | None \<Rightarrow> first_inline ps)"

definition inline_image :: "response \<Rightarrow> blob option" where
  "inline_image resp =
     (case candidates resp of
        [] \<Rightarrow> None
      | cand # rest \<Rightarrow>
         (case content cand of
            None \<Rightarrow> None
          | Some ct \<Rightarrow> first_inline (parts ct)))"

definition synthesis_phase :: "ui \<Rightarrow> client \<Rightarrow> session \<Rightarrow> session" where
  "synthesis_phase u c s =
     (if truthy (research_id s) \<and> clicked u = GenerateReport then
        (case interactions_create c (synthesis_request s) of
           Inl e \<Rightarrow> s
         | Inr i \<Rightarrow>
            (case models_generate_content c MODEL_IMAGE (image_prompt (get_text (outputs i))) of
               Inl e \<Rightarrow> s\<lparr>synthesis_text := Some (get_text (outputs i))\<rparr>
             | Inr resp \<Rightarrow>
                (case inline_image resp of
                   None \<Rightarrow> s\<lparr>synthesis_text := Some (get_text (outputs i))\<rparr>
                 | Some b \<Rightarrow>
                     s\<lparr>synthesis_text := Some (get_text (outputs i)),
                       infographic := data b\<rparr>)))
      else s)"

text \<open>
  One run of the script, from the session state before it (after
  \<^verbatim>\<open>init_session_state\<close>) to the session state after it: the reset button, the stop
  without an API key, then the three phases in their order.
\<close>

definition main :: "ui \<Rightarrow> client \<Rightarrow> session \<Rightarrow> session" where
  "main u c s =
     (if clicked u = Reset then reset_session_state s
      else if api_key u = [] then s
      else (case research_phase u c (plan_phase u c s) of
              EndRun s' \<Rightarrow> s'
            | Continue s' \<Rightarrow> synthesis_phase u c s'))"


text \<open>The session states that runs of the script reach from the first one.\<close>

inductive reachable :: "session \<Rightarrow> bool" where
  start: "reachable (init_session_state None)"
| run: "reachable s \<Longrightarrow> reachable (main u c s)"

definition phase_ordered :: "session \<Rightarrow> bool" where
  "phase_ordered s \<longleftrightarrow>
     (research_id s \<noteq> None \<longrightarrow> plan_id s \<noteq> None) \<and>
     (synthesis_text s \<noteq> None \<longrightarrow> research_id s \<noteq> None)"

definition planned_inv :: "session \<Rightarrow> bool" where
  "planned_inv s \<longleftrightarrow> phase_ordered s \<and> (plan_text s \<noteq> None \<longrightarrow> plan_id s \<noteq> None)"

section \<open>The document exporters\<close>

text \<open>
  \<^verbatim>\<open>utils.py\<close> must deal with characters beyond Latin-1, so here a Python string is the
  list of its code points (\<open>ustr\<close>), and \<open>uni\<close> reads a literal of this file as one.
  \<open>uspace\<close> is \<^verbatim>\<open>str.isspace\<close> on single code points.
\<close>

type_synonym ustr = "nat list"

definition uni :: "string \<Rightarrow> ustr" where
  "uni s = map of_char s"

definition uspace :: "nat \<Rightarrow> bool" where
  "uspace c \<longleftrightarrow>
     (9 \<le> c \<and> c \<le> 13) \<or> (28 \<le> c \<and> c \<le> 32) \<or> c = 133 \<or> c = 160 \<or> c = 5760 \<or>
     (8192 \<le> c \<and> c \<le> 8202) \<or> c = 8232 \<or> c = 8233 \<or> c = 8239 \<or> c = 8287 \<or> c = 12288"

definition ustrip :: "ustr \<Rightarrow> ustr" where
  "ustrip s = rev (dropWhile uspace (rev (dropWhile uspace s)))"

text \<open>\<^verbatim>\<open>s.split(d)\<close> for a separator of one character.\<close>

fun split_on :: "'a \<Rightarrow> 'a list \<Rightarrow> 'a list list" where
  "split_on d [] = [[]]"
| "split_on d (c # cs) =
     (if c = d then [] # split_on d cs
      else (case split_on d cs of [] \<Rightarrow> [[c]] | l # ls \<Rightarrow> (c # l) # ls))"

definition startswith :: "'a list \<Rightarrow> 'a list \<Rightarrow> bool" where
  "startswith s p \<longleftrightarrow> take (length p) s = p"

definition endswith :: "'a list \<Rightarrow> 'a list \<Rightarrow> bool" where
  "endswith s p \<longleftrightarrow> length p \<le> length s \<and> drop (length s - length p) s = p"

text \<open>
  \<^verbatim>\<open>
  def clean_text(text):
      return text.encode('latin-1', 'replace').decode('latin-1')
  \<close>
  The error handler \<^verbatim>\<open>'replace'\<close> encodes every code point above 255 as a question
  mark (63).
\<close>

definition clean_text :: "ustr \<Rightarrow> ustr" where
  "clean_text t = map (\<lambda>c. if c < 256 then c else 63) t"

subsection \<open>DOCX\<close>

text \<open>
  \<^verbatim>\<open>re.split(r'(\*\*.*?\*\*)', line)\<close>. The pattern matches two stars (code point 42),
  then lazily any characters but a newline, then two stars: \<open>find_close\<close> looks for the
  nearest closing pair after the opening one and gives the text between and the text
  after. With the group in the pattern, the result of the split lists the text before
  each match (empty when the match starts right there), then the match, and at the end
  the text after the last match.
\<close>

fun find_close :: "ustr \<Rightarrow> (ustr \<times> ustr) option" where
  "find_close [] = None"
| "find_close (c # cs) =
     (if startswith (c # cs) [42, 42] then Some ([], drop 1 cs)
      else if c = 10 then None
      else (case find_close cs of
              None \<Rightarrow> None
            | Some (inner, rest) \<Rightarrow> Some (c # inner, rest)))"

definition match_bold :: "ustr \<Rightarrow> (ustr \<times> ustr) option" where
  "match_bold s =
     (if startswith s [42, 42] then
        (case find_close (drop 2 s) of
           None \<Rightarrow> None
         | Some (inner, rest) \<Rightarrow> Some ([42, 42] @ inner @ [42, 42], rest))
      else None)"

function re_split_bold :: "ustr \<Rightarrow> ustr list" where
  "re_split_bold [] = [[]]"
| "re_split_bold (c # cs) =
     (case match_bold (c # cs) of
        Some (g, rest) \<Rightarrow> [] # g # re_split_bold rest
      | None \<Rightarrow> (case re_split_bold cs of [] \<Rightarrow> [[c]] | l # ls \<Rightarrow> (c # l) # ls))"
  by pat_completeness auto
termination
proof (relation "measure length", goal_cases)
  case 1
  show ?case by simp
next
  case (2 c cs)
  show ?case by simp
next
  case (3 c cs m g rest)
  have close: "find_close s = Some (i, r) \<Longrightarrow> length r < length s" for s i r
  proof (induction s arbitrary: i r)
    case Nil
    then show ?case by simp
  next
    case (Cons a s)
    then show ?case
      by (fastforce simp: startswith_def split: if_splits option.splits)
  qed
  from 3 have "match_bold (c # cs) = Some (g, rest)" by simp
  then obtain i where "find_close (drop 2 (c # cs)) = Some (i, rest)"
    by (auto simp: match_bold_def split: if_splits option.splits)
  then have "length rest < length (drop 2 (c # cs))" by (rule close)
  then show ?case by simp
qed

text \<open>
  The document is the list of the blocks added to it: headings with their level,
  bullet paragraphs, and paragraphs made of runs. Every call of \<^verbatim>\<open>p.add_run\<close> adds
  one run to the paragraph, also for an empty text.
  \<^verbatim>\<open>
  def generate_docx(text: str) -> io.BytesIO:
      doc = Document()
      doc.add_heading('Research Report', 0)
      lines = text.split('\n')
      for line in lines:
          if not line.strip():
              continue
          if line.startswith('# '):
              doc.add_heading(line[2:].strip(), level=1)
          elif line.startswith('## '):
              doc.add_heading(line[3:].strip(), level=2)
          elif line.startswith('### '):
              doc.add_heading(line[4:].strip(), level=3)
          elif line.startswith('* ') or line.startswith('- '):
              p = doc.add_paragraph(line[2:].strip(), style='List Bullet')
          else:
              p = doc.add_paragraph()
              parts = re.split(r'(\*\*.*?\*\*)', line)
              for part in parts:
                  if part.startswith('**') and part.endswith('**'):
                      run = p.add_run(part[2:-2])
                      run.bold = True
                  else:
                      p.add_run(part)
  \<close>
  The stream that \<^verbatim>\<open>doc.save\<close> writes is the library's encoding of these blocks.
\<close>

datatype run = Run (run_text: ustr) (bold: bool)

datatype block = Heading ustr nat | ListBullet ustr | Paragraph "run list"

definition add_run :: "ustr \<Rightarrow> run" where
  "add_run p =
     (if startswith p [42, 42] \<and> endswith p [42, 42]
      then Run (take (length p - 4) (drop 2 p)) True
      else Run p False)"

definition docx_line :: "ustr \<Rightarrow> block list" where
  "docx_line line =
     (if ustrip line = [] then []
      else if startswith line (uni ''# '') then [Heading (ustrip (drop 2 line)) 1]
      else if startswith line (uni ''## '') then [Heading (ustrip (drop 3 line)) 2]
      else if startswith line (uni ''### '') then [Heading (ustrip (drop 4 line)) 3]
      else if startswith line (uni ''* '') \<or> startswith line (uni ''- '')
        then [ListBullet (ustrip (drop 2 line))]
      else [Paragraph (map add_run (re_split_bold line))])"

definition generate_docx :: "ustr \<Rightarrow> block list" where
  "generate_docx t =
     Heading (uni ''Research Report'') 0 # concat (map docx_line (split_on 10 t))"

subsection \<open>PDF\<close>

text \<open>
  The PDF is the list of the calls made on the \<^verbatim>\<open>FPDF\<close> object; \<^verbatim>\<open>pdf.output()\<close>
  is the library's encoding of them. The fonts used are core fonts, for which the
  library encodes every text it is given in Latin-1 and raises
  \<^verbatim>\<open>FPDFUnicodeEncodingException\<close> when a character has no such encoding: \<open>multi_cell\<close>
  raises for a text with a code point above 255. The header and the footer print
  fixed ASCII texts.
  \<^verbatim>\<open>
  def generate_pdf(text: str) -> bytes:
      pdf = PDF()
      pdf.add_page()
      pdf.set_auto_page_break(auto=True, margin=15)
      pdf.set_font("Helvetica", size=12)
      lines = text.split('\n')
      for line in lines:
          line = clean_text(line)
          if not line.strip():
              pdf.ln(5)
              continue
          if line.startswith('# '):
              pdf.set_font("Helvetica", 'B', 16)
              pdf.multi_cell(0, 10, line[2:].strip(), new_x="LMARGIN", new_y="NEXT")
              pdf.set_font("Helvetica", size=12)
          elif line.startswith('## '):
              (the same with size 14 and line[3:])
          elif line.startswith('### '):
              (the same with size 13 and line[4:])
          elif line.startswith('* ') or line.startswith('- '):
              pdf.set_x(20)
              pdf.multi_cell(0, 8, f"\x95 {line[2:].strip()}", new_x="LMARGIN", new_y="NEXT")
          else:
              clean_line = line.replace('**', '').replace('__', '')
              pdf.multi_cell(0, 8, clean_line, new_x="LMARGIN", new_y="NEXT")
      return bytes(pdf.output())
  \<close>
\<close>

datatype pdf_error = FPDFUnicodeEncodingException

datatype pdf_op =
    AddPage
  | SetAutoPageBreak nat
  | SetFont string string nat
  | Ln nat
  | SetX nat
  | MultiCell nat nat ustr

definition latin1 :: "ustr \<Rightarrow> bool" where
  "latin1 t \<longleftrightarrow> list_all (\<lambda>c. c < 256) t"

definition multi_cell :: "nat \<Rightarrow> nat \<Rightarrow> ustr \<Rightarrow> pdf_error + pdf_op list" where
  "multi_cell w h t =
     (if latin1 t then Inr [MultiCell w h t] else Inl FPDFUnicodeEncodingException)"

text \<open>\<^verbatim>\<open>s.replace(mm, '')\<close> for a pair \<open>mm\<close> of the same character \<open>m\<close>.\<close>

fun remove_pair :: "'a \<Rightarrow> 'a list \<Rightarrow> 'a list" where
  "remove_pair m (a # b # cs) =
     (if a = m \<and> b = m then remove_pair m cs else a # remove_pair m (b # cs))"
| "remove_pair m cs = cs"

text \<open>Calls one after the other: the first that raises ends the sequence.\<close>

fun run_all :: "('e + 'a list) list \<Rightarrow> 'e + 'a list" where
  "run_all [] = Inr []"
| "run_all (r # rs) =
     (case r of
        Inl e \<Rightarrow> Inl e
      | Inr xs \<Rightarrow> (case run_all rs of Inl e \<Rightarrow> Inl e | Inr ys \<Rightarrow> Inr (xs @ ys)))"

definition heading_cell :: "nat \<Rightarrow> ustr \<Rightarrow> pdf_error + pdf_op list" where
  "heading_cell pt t =
     run_all [Inr [SetFont ''Helvetica'' ''B'' pt], multi_cell 0 10 t,
              Inr [SetFont ''Helvetica'' [] 12]]"

definition bullet_cell :: "ustr \<Rightarrow> pdf_error + pdf_op list" where
  "bullet_cell t = run_all [Inr [SetX 20], multi_cell 0 8 ([149, 32] @ t)]"

definition pdf_line :: "ustr \<Rightarrow> pdf_error + pdf_op list" where
  "pdf_line raw =
     (let line = clean_text raw in
      if ustrip line = [] then Inr [Ln 5]
      else if startswith line (uni ''# '') then heading_cell 16 (ustrip (drop 2 line))
      else if startswith line (uni ''## '') then heading_cell 14 (ustrip (drop 3 line))
      else if startswith line (uni ''### '') then heading_cell 13 (ustrip (drop 4 line))
      else if startswith line (uni ''* '') \<or> startswith line (uni ''- '')
        then bullet_cell (ustrip (drop 2 line))
      else multi_cell 0 8 (remove_pair 95 (remove_pair 42 line)))"

definition generate_pdf :: "ustr \<Rightarrow> pdf_error + pdf_op list" where
  "generate_pdf t =
     run_all (Inr [AddPage, SetAutoPageBreak 15, SetFont ''Helvetica'' [] 12]
              # map pdf_line (split_on 10 t))"

definition rendered_latin1 :: "pdf_op \<Rightarrow> bool" where
  "rendered_latin1 op = (case op of MultiCell w h t \<Rightarrow> latin1 t | _ \<Rightarrow> True)"

definition all_latin1 :: "pdf_error + pdf_op list \<Rightarrow> bool" where
  "all_latin1 r = (case r of Inl e \<Rightarrow> False | Inr ops \<Rightarrow> list_all rendered_latin1 ops)"

section \<open>Concrete inputs\<close>

text \<open>Status clients and jobs for the poller.\<close>

definition running :: interaction where
  "running = \<lparr>interaction_id = ''r1'', status = ''in_progress'', outputs = []\<rparr>"

definition finished :: interaction where
  "finished = \<lparr>interaction_id = ''r1'', status = ''completed'',
     outputs = [Output (Some ''Findings'')]\<rparr>"

definition done_from_4 :: "int \<Rightarrow> interaction" where
  "done_from_4 t = (if t < 4 then running else finished)"

definition fails_second :: "nat \<Rightarrow> error + interaction" where
  "fails_second n =
     (if n = 1 then Inl (RemoteError ''503'') else if n = 2 then Inr finished else Inr running)"

definition fails_twice :: "nat \<Rightarrow> error + interaction" where
  "fails_twice n =
     (if n = 1 then Inl (RemoteError ''503'')
      else if n = 2 then Inl (RemoteError ''504'') else Inr running)"

definition always_running :: "nat \<Rightarrow> error + interaction" where
  "always_running n = Inr running"

text \<open>The plan of the specification's example, and a plan like it with a second line
  in the second item and the third separator right after its number.\<close>

definition spec_plan :: string where
  "spec_plan =
     ''1. Find data - details'' @ [NL] @ ''2) Check sources'' @ [NL, NL] @ ''3 - Summarize''"

definition spec_items :: "item list" where
  "spec_items =
    [\<lparr>item_num = ''1'', item_sep = CHR ''.'', item_gap = '' '',
      item_lines = [''Find data - details''], item_blank = 0\<rparr>,
     \<lparr>item_num = ''2'', item_sep = CHR '')'', item_gap = '' '',
      item_lines = [''Check sources'', ''and dates ''], item_blank = 1\<rparr>,
     \<lparr>item_num = ''3'', item_sep = CHR ''-'', item_gap = '' '',
      item_lines = [''Summarize''], item_blank = 0\<rparr>]"

text \<open>
  Remote clients and a session: \<open>good_client\<close> answers every call, \<open>no_image_client\<close>
  and \<open>empty_image_client\<close> answer the synthesis call with a revised report but give
  no image (the first raises, the second returns no inline part), \<open>down_client\<close> raises
  on every call. \<open>planned\<close>, \<open>researched\<close> and \<open>illustrated\<close> are the session states
  after the three phases with \<open>good_client\<close>.
\<close>

definition plan_reply :: interaction where
  "plan_reply = \<lparr>interaction_id = ''p1'', status = ''completed'',
     outputs = [Output (Some ''1. Survey'')]\<rparr>"

definition report_reply :: interaction where
  "report_reply = \<lparr>interaction_id = ''s1'', status = ''completed'',
     outputs = [Output (Some ''Report'')]\<rparr>"


definition picture :: response where
  "picture =
     Response [Candidate (Some (Content [Part None, Part (Some (Blob (Some [137, 80])))]))]"


definition answer :: "request \<Rightarrow> error + interaction" where
  "answer r =
     (if agent r = Some MODEL_RESEARCH_AGENT then Inr running
      else if model r = Some MODEL_PLANNER then Inr plan_reply
      else Inr report_reply)"

definition finished_job :: "string \<Rightarrow> nat \<Rightarrow> error + interaction" where
  "finished_job i n = Inr finished"

definition give_picture :: "string \<Rightarrow> string \<Rightarrow> error + response" where
  "give_picture m t = Inr picture"


definition image_unavailable :: "string \<Rightarrow> string \<Rightarrow> error + response" where
  "image_unavailable m t = Inl (RemoteError ''image model unavailable'')"


definition create_unavailable :: "request \<Rightarrow> error + interaction" where
  "create_unavailable r = Inl (RemoteError ''service unavailable'')"

definition get_unavailable :: "string \<Rightarrow> nat \<Rightarrow> error + interaction" where
  "get_unavailable i n = Inl (RemoteError ''service unavailable'')"

definition good_client :: client where
  "good_client = \<lparr>interactions_create = answer, interactions_get = finished_job,
     models_generate_content = give_picture\<rparr>"



definition down_client :: client where
  "down_client = \<lparr>interactions_create = create_unavailable,
     interactions_get = get_unavailable, models_generate_content = image_unavailable\<rparr>"

definition all_checked :: "string \<Rightarrow> bool" where
  "all_checked k = True"

definition click :: "button \<Rightarrow> ui" where
  "click b = \<lparr>api_key = ''key'', research_goal = ''HR SaaS market'',
     checked = all_checked, clicked = b\<rparr>"

definition planned :: session where
  "planned = main (click GeneratePlan) good_client (init_session_state None)"

definition researched :: session where
  "researched = main (click StartResearch) good_client planned"

definition illustrated :: session where
  "illustrated = main (click GenerateReport) good_client researched"

text \<open>A text with an emoji (code point 128300) and a euro sign (8364), for the PDF.\<close>

definition emoji_report :: ustr where
  "emoji_report = [128300, 32] @ uni ''**Report**'' @ [10] @ uni ''- caf'' @ [233, 8364]"

section \<open>Properties of the completion poller\<close>

text \<open>
  While the answers are \<^verbatim>\<open>in_progress\<close> and the time is not up, the loop only sleeps and
  counts: \<open>m\<close> such queries move it from \<open>(elapsed, n)\<close> to
  \<open>(elapsed + m * POLLING_INTERVAL, n + m)\<close>.
\<close>

lemma wait_loop_skip:
  assumes "\<forall>j<m. in_progress get (n + j)"
    and "m = 0 \<or> elapsed + (int m - 1) * POLLING_INTERVAL < timeout"
  shows "wait_loop get timeout elapsed n =
         wait_loop get timeout (elapsed + int m * POLLING_INTERVAL) (n + m)"
  using assms
proof (induction m arbitrary: elapsed n)
  case 0
  then show ?case by simp
next
  case (Suc m)
  from Suc.prems(1) have run: "in_progress get n" by force
  from Suc.prems(2) have lt: "elapsed < timeout"
    by (simp add: POLLING_INTERVAL_def)
  from run obtain i where i: "get n = Inr i" "status i = ''in_progress''"
    by (auto simp: in_progress_def split: sum.splits)
  have step: "wait_loop get timeout elapsed n =
      wait_loop get timeout (elapsed + POLLING_INTERVAL) (Suc n)"
    using lt i by (simp add: wait_loop.simps [of get timeout elapsed n])
  have "\<forall>j<m. in_progress get (Suc n + j)"
    using Suc.prems(1) by (metis Suc_less_eq add_Suc_shift)
  moreover have "m = 0 \<or> (elapsed + POLLING_INTERVAL) + (int m - 1) * POLLING_INTERVAL < timeout"
    using Suc.prems(2) by (simp add: algebra_simps)
  ultimately have "wait_loop get timeout (elapsed + POLLING_INTERVAL) (Suc n) =
      wait_loop get timeout (elapsed + POLLING_INTERVAL + int m * POLLING_INTERVAL) (Suc n + m)"
    by (rule Suc.IH)
  with step show ?case by (simp add: algebra_simps)
qed

lemma wait_for_completion_skip:
  assumes "\<forall>j<m. in_progress get j"
    and "m = 0 \<or> (int m - 1) * POLLING_INTERVAL < timeout"
  shows "wait_for_completion get timeout =
         wait_loop get timeout (int m * POLLING_INTERVAL) m"
  using wait_loop_skip [of m get 0 0 timeout] assms
  by (simp add: wait_for_completion_def)

text \<open>The ceiling of a time divided by the polling interval, in integers.\<close>

lemma ceil_interval:
  "nat \<lceil>real_of_int t / real_of_int POLLING_INTERVAL\<rceil> = nat ((t + 2) div 3)"
proof -
  have "- (- t div 3) = (t + 2) div (3::int)" by presburger
  then show ?thesis
    unfolding POLLING_INTERVAL_def ceiling_divide_eq_div by simp
qed

lemma ceil_interval_bounds:
  assumes "0 \<le> t"
  shows "t \<le> int (nat ((t + 2) div 3)) * 3" and "int (nat ((t + 2) div 3)) * 3 < t + 3"
proof -
  have "0 \<le> (t + 2) div 3" using assms by simp
  then have "int (nat ((t + 2) div 3)) * 3 = ((t + 2) div 3) * 3" by simp
  moreover have "t \<le> ((t + 2) div 3) * 3" and "((t + 2) div 3) * 3 < t + 3"
    by presburger+
  ultimately show "t \<le> int (nat ((t + 2) div 3)) * 3"
    and "int (nat ((t + 2) div 3)) * 3 < t + 3" by simp_all
qed

text \<open>
  Claim C3, as the specification states it: the poller returns the first report that is
  not \<^verbatim>\<open>in_progress\<close>, queries no more, and has then made exactly
  \<open>ceil (t / poll_interval)\<close> queries, \<open>t\<close> being the time of that first report. The
  count is wrong by one, since the first query is made before the first sleep. For a job
  that completes at second 4 the queries are made at the seconds 0, 3 and 6: three
  queries, while \<open>ceil (4 / 3) = 2\<close>; and with the time of the report itself, second 6,
  \<open>ceil (6 / 3) = 2\<close> as well.
\<close>

theorem poll_count_counterexample:
  "completes_at done_from_4 4
   \<and> returned (wait_for_completion (timed_client done_from_4) TIMEOUT) = Inr finished
   \<and> waited (wait_for_completion (timed_client done_from_4) TIMEOUT) = 6
   \<and> queries (wait_for_completion (timed_client done_from_4) TIMEOUT) = 3
   \<and> queries (wait_for_completion (timed_client done_from_4) TIMEOUT)
       \<noteq> nat \<lceil>real_of_int 4 / real_of_int POLLING_INTERVAL\<rceil>
   \<and> queries (wait_for_completion (timed_client done_from_4) TIMEOUT)
       \<noteq> nat \<lceil>real_of_int 6 / real_of_int POLLING_INTERVAL\<rceil>"
  by (simp add: completes_at_def done_from_4_def running_def finished_def
      wait_for_completion_def wait_loop.simps timed_client_def TIMEOUT_def POLLING_INTERVAL_def)

text \<open>
  Claim C3, amended: for a job that completes at second \<open>t\<close>, within the timeout, the
  poller returns the report of query number \<open>k = ceil (t / POLLING_INTERVAL)\<close> (counted
  from 0), which is the first one that is not \<^verbatim>\<open>in_progress\<close>; it makes no query after
  it, so it makes exactly \<open>k + 1\<close> queries, and it has slept \<open>k\<close> intervals.
\<close>

theorem poll_count:
  assumes "completes_at job t" and "t \<le> timeout"
  shows "returned (wait_for_completion (timed_client job) timeout) =
           timed_client job (nat \<lceil>real_of_int t / real_of_int POLLING_INTERVAL\<rceil>)
    \<and> \<not> in_progress (timed_client job) (nat \<lceil>real_of_int t / real_of_int POLLING_INTERVAL\<rceil>)
    \<and> (\<forall>j < nat \<lceil>real_of_int t / real_of_int POLLING_INTERVAL\<rceil>. in_progress (timed_client job) j)
    \<and> queries (wait_for_completion (timed_client job) timeout) =
           nat \<lceil>real_of_int t / real_of_int POLLING_INTERVAL\<rceil> + 1
    \<and> waited (wait_for_completion (timed_client job) timeout) =
           int (nat \<lceil>real_of_int t / real_of_int POLLING_INTERVAL\<rceil>) * POLLING_INTERVAL"
proof -
  define k where "k = nat \<lceil>real_of_int t / real_of_int POLLING_INTERVAL\<rceil>"
  have k: "k = nat ((t + 2) div 3)"
    unfolding k_def by (rule ceil_interval)
  from assms(1) have t0: "0 \<le> t"
    and st: "\<And>t'. status (job t') = ''in_progress'' \<longleftrightarrow> t' < t"
    by (simp_all add: completes_at_def)
  have upper: "t \<le> int k * POLLING_INTERVAL"
    using ceil_interval_bounds(1) [OF t0] unfolding k POLLING_INTERVAL_def by simp
  have lower: "int k * POLLING_INTERVAL < t + POLLING_INTERVAL"
    using ceil_interval_bounds(2) [OF t0] unfolding k POLLING_INTERVAL_def by simp
  have before: "\<forall>j<k. in_progress (timed_client job) j"
  proof (intro allI impI)
    fix j assume "j < k"
    then have "int j + 1 \<le> int k" by simp
    then have "(int j + 1) * POLLING_INTERVAL \<le> int k * POLLING_INTERVAL"
      by (simp add: POLLING_INTERVAL_def)
    with lower have "int j * POLLING_INTERVAL < t"
      by (simp add: algebra_simps)
    then show "in_progress (timed_client job) j"
      by (simp add: in_progress_def timed_client_def st)
  qed
  have at_k: "\<not> in_progress (timed_client job) k"
    using upper by (simp add: in_progress_def timed_client_def st)
  have last: "k = 0 \<or> (int k - 1) * POLLING_INTERVAL < timeout"
    using lower assms(2) by (simp add: algebra_simps)
  from before last have "wait_for_completion (timed_client job) timeout =
      wait_loop (timed_client job) timeout (int k * POLLING_INTERVAL) k"
    by (rule wait_for_completion_skip)
  also have "\<dots> = \<lparr>returned = timed_client job k, queries = Suc k,
      final_query = \<not> int k * POLLING_INTERVAL < timeout,
      waited = int k * POLLING_INTERVAL\<rparr>"
    using at_k
    by (simp add: wait_loop.simps [of "timed_client job" timeout "int k * POLLING_INTERVAL" k]
        in_progress_def timed_client_def)
  finally have "wait_for_completion (timed_client job) timeout =
      \<lparr>returned = timed_client job k, queries = Suc k,
       final_query = \<not> int k * POLLING_INTERVAL < timeout,
       waited = int k * POLLING_INTERVAL\<rparr>" .
  with before at_k show ?thesis
    unfolding k_def [symmetric] by simp
qed

theorem poll_count_witness:
  "completes_at done_from_4 4 \<and> 4 \<le> TIMEOUT
   \<and> returned (wait_for_completion (timed_client done_from_4) TIMEOUT) = Inr finished
   \<and> queries (wait_for_completion (timed_client done_from_4) TIMEOUT) = 2 + 1
   \<and> waited (wait_for_completion (timed_client done_from_4) TIMEOUT) = 6"
  using poll_count [of done_from_4 4 TIMEOUT]
  by (simp add: completes_at_def done_from_4_def running_def finished_def
      timed_client_def TIMEOUT_def POLLING_INTERVAL_def)

text \<open>
  Claim C4: with a status client that always reports \<^verbatim>\<open>in_progress\<close> and never fails,
  the poller terminates (\<open>wait_for_completion\<close> is a total function) and returns an
  interaction that is still \<^verbatim>\<open>in_progress\<close>, not an error. It makes
  \<open>ceil (timeout / POLLING_INTERVAL)\<close> queries in the loop and the one query after it,
  and it has slept less than \<open>timeout + POLLING_INTERVAL\<close> seconds. The timeout is a
  duration, so it is not negative. The time of the queries themselves is not part of
  the model.
\<close>

theorem never_completes_times_out:
  assumes "\<forall>n. in_progress get n" and "0 \<le> timeout"
  shows "(\<exists>i. returned (wait_for_completion get timeout) = Inr i \<and> status i = ''in_progress'')
    \<and> returned (wait_for_completion get timeout) =
        get (nat \<lceil>real_of_int timeout / real_of_int POLLING_INTERVAL\<rceil>)
    \<and> final_query (wait_for_completion get timeout)
    \<and> queries (wait_for_completion get timeout) =
        nat \<lceil>real_of_int timeout / real_of_int POLLING_INTERVAL\<rceil> + 1
    \<and> waited (wait_for_completion get timeout) =
        int (nat \<lceil>real_of_int timeout / real_of_int POLLING_INTERVAL\<rceil>) * POLLING_INTERVAL
    \<and> waited (wait_for_completion get timeout) < timeout + POLLING_INTERVAL"
proof -
  define m where "m = nat \<lceil>real_of_int timeout / real_of_int POLLING_INTERVAL\<rceil>"
  have m: "m = nat ((timeout + 2) div 3)"
    unfolding m_def by (rule ceil_interval)
  have last: "m = 0 \<or> (int m - 1) * POLLING_INTERVAL < timeout"
    using ceil_interval_bounds(2) [OF assms(2)] unfolding m POLLING_INTERVAL_def by simp
  have stop: "\<not> int m * POLLING_INTERVAL < timeout"
    using ceil_interval_bounds(1) [OF assms(2)] unfolding m POLLING_INTERVAL_def by simp
  have bound: "int m * POLLING_INTERVAL < timeout + POLLING_INTERVAL"
    using ceil_interval_bounds(2) [OF assms(2)] unfolding m POLLING_INTERVAL_def by simp
  from assms(1) have "\<forall>j<m. in_progress get j" by simp
  then have "wait_for_completion get timeout =
      wait_loop get timeout (int m * POLLING_INTERVAL) m"
    using last by (rule wait_for_completion_skip)
  also have "\<dots> = \<lparr>returned = get m, queries = Suc m, final_query = True,
      waited = int m * POLLING_INTERVAL\<rparr>"
    using stop by (simp add: wait_loop.simps [of get timeout "int m * POLLING_INTERVAL" m])
  finally have r: "wait_for_completion get timeout =
      \<lparr>returned = get m, queries = Suc m, final_query = True,
       waited = int m * POLLING_INTERVAL\<rparr>" .
  from assms(1) have "in_progress get m" by simp
  then obtain i where "get m = Inr i" "status i = ''in_progress''"
    by (auto simp: in_progress_def split: sum.splits)
  with r bound show ?thesis
    unfolding m_def [symmetric] by simp
qed

theorem never_completes_times_out_witness:
  "returned (wait_for_completion always_running TIMEOUT) = Inr running
   \<and> status running = ''in_progress''
   \<and> final_query (wait_for_completion always_running TIMEOUT)
   \<and> queries (wait_for_completion always_running TIMEOUT) = 101
   \<and> waited (wait_for_completion always_running TIMEOUT) = 300"
  using never_completes_times_out [of always_running TIMEOUT]
  by (simp add: always_running_def in_progress_def running_def TIMEOUT_def POLLING_INTERVAL_def)

text \<open>
  Claim C5: when the queries before number \<open>k\<close> report \<^verbatim>\<open>in_progress\<close> and query \<open>k\<close>,
  made in the loop, fails, the loop stops there (no further sleep) and exactly one more
  query is made: the call returns what that query returns, and raises what it raises.
\<close>

theorem query_failure_one_final_query:
  assumes "\<forall>j<k. in_progress get j"
    and "get k = Inl e"
    and "int k * POLLING_INTERVAL < timeout"
  shows "wait_for_completion get timeout =
         \<lparr>returned = get (Suc k), queries = k + 2, final_query = True,
          waited = int k * POLLING_INTERVAL\<rparr>"
proof -
  have "k = 0 \<or> (int k - 1) * POLLING_INTERVAL < timeout"
    using assms(3) by (simp add: POLLING_INTERVAL_def)
  with assms(1) have "wait_for_completion get timeout =
      wait_loop get timeout (int k * POLLING_INTERVAL) k"
    by (rule wait_for_completion_skip)
  also have "\<dots> = \<lparr>returned = get (Suc k), queries = k + 2, final_query = True,
          waited = int k * POLLING_INTERVAL\<rparr>"
    using assms(2,3) by (simp add: wait_loop.simps [of get timeout "int k * POLLING_INTERVAL" k])
  finally show ?thesis .
qed

theorem query_failure_one_final_query_witness:
  "wait_for_completion fails_second TIMEOUT =
     \<lparr>returned = Inr finished, queries = 3, final_query = True, waited = 3\<rparr>
   \<and> wait_for_completion fails_twice TIMEOUT =
     \<lparr>returned = Inl (RemoteError ''504''), queries = 3, final_query = True, waited = 3\<rparr>"
  using query_failure_one_final_query [of 1 fails_second "RemoteError ''503''" TIMEOUT]
    query_failure_one_final_query [of 1 fails_twice "RemoteError ''503''" TIMEOUT]
  by (simp add: fails_second_def fails_twice_def in_progress_def running_def TIMEOUT_def
      POLLING_INTERVAL_def)

section \<open>Properties of the task parser\<close>

lemma separator_not_digit: "is_separator c \<Longrightarrow> \<not> isdigit c"
  by (auto simp: is_separator_def isdigit_def)

lemma NL_not_digit: "\<not> isdigit NL"
  by (simp add: isdigit_def)

lemma NL_not_separator: "\<not> is_separator NL"
  by (simp add: is_separator_def)

lemma lookahead_NL: "lookahead (c # cs) \<Longrightarrow> c = NL"
  by (auto simp: lookahead_def item_ahead_def)

lemma lazy_body_line: "NL \<notin> set l \<Longrightarrow> lazy_body (l @ R) = l @ lazy_body R"
proof (induction l)
  case Nil
  show ?case by simp
next
  case (Cons c l)
  then have "c \<noteq> NL" by auto
  then have "\<not> lookahead (c # l @ R)"
    using lookahead_NL by blast
  with Cons show ?case by simp
qed

lemma digits_prefix:
  assumes "list_all isdigit ds" and "\<not> isdigit c"
  shows "takeWhile isdigit (ds @ c # r) = ds" and "dropWhile isdigit (ds @ c # r) = c # r"
  using assms by (induction ds) simp_all

lemma spaces_prefix:
  assumes "list_all isspace ws" and "\<not> isspace c"
  shows "dropWhile isspace (ws @ c # r) = c # r"
  using assms by (induction ws) simp_all

text \<open>A line of a body is followed by the end of the text or by a newline.\<close>

lemma starts_item_line:
  assumes "R = [] \<or> hd R = NL"
  shows "starts_item (l @ R) = starts_item l"
proof (cases "list_all isdigit l")
  case True
  then have t: "takeWhile isdigit l = l" and d: "dropWhile isdigit l = []"
    by (simp_all add: list_all_iff)
  show ?thesis
  proof (cases R)
    case Nil
    then show ?thesis by simp
  next
    case (Cons c r)
    with assms have c: "c = NL" by simp
    have "dropWhile isdigit (l @ NL # r) = NL # r"
      using True NL_not_digit by (rule digits_prefix)
    then show ?thesis
      by (simp add: starts_item_def Cons c d NL_not_separator)
  qed
next
  case False
  then obtain x where x: "x \<in> set l" "\<not> isdigit x"
    by (auto simp: list_all_iff)
  then have t: "takeWhile isdigit (l @ R) = takeWhile isdigit l"
    and d: "dropWhile isdigit (l @ R) = dropWhile isdigit l @ R"
    by (simp_all add: takeWhile_append1 dropWhile_append1)
  from x have "dropWhile isdigit l \<noteq> []"
    by (auto simp: dropWhile_eq_Nil_conv)
  then obtain y ys where "dropWhile isdigit l = y # ys"
    by (cases "dropWhile isdigit l") auto
  then show ?thesis
    by (simp add: starts_item_def t d)
qed

lemma continuation_quiet:
  assumes "l \<noteq> []" and "NL \<notin> set l" and "\<not> starts_item l" and "R = [] \<or> hd R = NL"
  shows "\<not> lookahead (NL # l @ R)"
proof -
  from assms(1,2) obtain c cs where l: "l = c # cs" and c: "c \<noteq> NL"
    by (cases l) auto
  have "\<not> item_ahead (NL # l @ R)"
    using assms(3) starts_item_line [OF assms(4), of l] by (simp add: item_ahead_def)
  then show ?thesis
    by (simp add: lookahead_def l c)
qed

lemma lazy_body_continuations:
  assumes "list_all (\<lambda>l. l \<noteq> [] \<and> NL \<notin> set l \<and> \<not> starts_item l) ls" and "lookahead T"
  shows "lazy_body (concat (map ((#) NL) ls) @ T) = concat (map ((#) NL) ls)"
  using assms(1)
proof (induction ls)
  case Nil
  from assms(2) show ?case by (cases T) simp_all
next
  case (Cons l ls)
  let ?R = "concat (map ((#) NL) ls) @ T"
  from Cons.prems have l: "l \<noteq> []" "NL \<notin> set l" "\<not> starts_item l"
    and ls: "list_all (\<lambda>l. l \<noteq> [] \<and> NL \<notin> set l \<and> \<not> starts_item l) ls"
    by simp_all
  have R: "?R = [] \<or> hd ?R = NL"
  proof (cases ls)
    case Nil
    with assms(2) show ?thesis
      using lookahead_NL by (cases T) auto
  next
    case (Cons a as)
    then show ?thesis by simp
  qed
  have "\<not> lookahead (NL # l @ ?R)"
    using l R by (rule continuation_quiet)
  then have "lazy_body (NL # l @ ?R) = NL # lazy_body (l @ ?R)" by simp
  also have "lazy_body (l @ ?R) = l @ lazy_body ?R"
    using l(2) by (rule lazy_body_line)
  also have "lazy_body ?R = concat (map ((#) NL) ls)"
    using ls by (rule Cons.IH)
  finally show ?case by simp
qed

lemma join_lines: "join [NL] (l # ls) = l @ concat (map ((#) NL) ls)"
  by (induction ls arbitrary: l) simp_all

lemma match_item_wellformed:
  assumes wf: "wellformed it" and T: "lookahead T"
  shows "match_item (render_item it @ T) = Some (item_num it, item_body it, T)"
proof -
  from wf obtain l ls where lines: "item_lines it = l # ls"
    by (cases "item_lines it") (auto simp: wellformed_def)
  with wf obtain x l' where l: "l = x # l'" and x: "\<not> isspace x" and l': "NL \<notin> set l'"
    by (cases l) (auto simp: wellformed_def)
  from wf lines have ls: "list_all (\<lambda>l. l \<noteq> [] \<and> NL \<notin> set l \<and> \<not> starts_item l) ls"
    by (auto simp: wellformed_def list_all_iff)
  from wf have num: "item_num it \<noteq> []" "list_all isdigit (item_num it)"
    and sep: "is_separator (item_sep it)" and gap: "list_all isspace (item_gap it)"
    by (simp_all add: wellformed_def)
  let ?C = "concat (map ((#) NL) ls)"
  have body: "item_body it = x # l' @ ?C"
    by (simp add: item_body_def lines join_lines l)
  let ?r = "item_gap it @ x # l' @ ?C @ T"
  have shape: "render_item it @ T = item_num it @ item_sep it # ?r"
    by (simp add: render_item_def body)
  have d1: "takeWhile isdigit (render_item it @ T) = item_num it"
    and d2: "dropWhile isdigit (render_item it @ T) = item_sep it # ?r"
    unfolding shape using num(2) separator_not_digit [OF sep] by (rule digits_prefix)+
  have d3: "dropWhile isspace ?r = x # l' @ ?C @ T"
    using gap x by (rule spaces_prefix)
  have "lazy_body (l' @ ?C @ T) = l' @ lazy_body (?C @ T)"
    using l' by (rule lazy_body_line)
  also have "lazy_body (?C @ T) = ?C"
    using ls T by (rule lazy_body_continuations)
  finally have d4: "lazy_body (l' @ ?C @ T) = l' @ ?C" .
  show ?thesis
    by (simp add: match_item_def d1 d2 d3 d4 num(1) sep body)
qed

lemma last_body_not_NL:
  assumes "wellformed it"
  shows "item_body it \<noteq> []" and "last (item_body it) \<noteq> NL"
proof -
  from assms have lines: "item_lines it \<noteq> []"
    and ok: "\<forall>l\<in>set (item_lines it). l \<noteq> [] \<and> NL \<notin> set l"
    by (simp_all add: wellformed_def list_all_iff)
  have "join [NL] ls \<noteq> [] \<and> last (join [NL] ls) \<noteq> NL"
    if "ls \<noteq> []" and "\<forall>l\<in>set ls. l \<noteq> [] \<and> NL \<notin> set l" for ls :: "string list"
    using that
  proof (induction ls rule: join.induct [where ?a0.0 = "[NL]"])
    case (1 sep)
    then show ?case by simp
  next
    case (2 sep x)
    then have "x \<noteq> []" "NL \<notin> set x" by simp_all
    then show ?case using last_in_set by fastforce
  next
    case (3 sep x y ys)
    then show ?case by simp
  qed
  with lines ok show "item_body it \<noteq> []" and "last (item_body it) \<noteq> NL"
    by (simp_all add: item_body_def)
qed

lemma finditer_wellformed:
  assumes wf: "wellformed it" and T: "lookahead T"
  shows "finditer True (render_item it @ T) = (item_num it, item_body it) # finditer False T"
proof -
  from wf obtain c cs where shape: "render_item it @ T = c # cs"
    by (cases "render_item it @ T") (auto simp: render_item_def wellformed_def)
  have "last (item_body it) \<noteq> NL"
    using wf by (rule last_body_not_NL)
  moreover have "match_item (c # cs) = Some (item_num it, item_body it, T)"
    using match_item_wellformed [OF wf T] by (simp add: shape)
  ultimately have "finditer True (c # cs) = (item_num it, item_body it) # finditer False T"
    by simp
  then show ?thesis by (simp add: shape)
qed

lemma finditer_blank: "finditer True (replicate k NL @ s) = finditer True s"
proof (induction k)
  case 0
  show ?case by simp
next
  case (Suc k)
  have "match_item (NL # replicate k NL @ s) = None"
    by (simp add: match_item_def NL_not_digit)
  with Suc show ?case by simp
qed

lemma item_ahead_render:
  assumes "wellformed it"
  shows "item_ahead (NL # render_item it @ r)"
proof -
  from assms have num: "item_num it \<noteq> []" "list_all isdigit (item_num it)"
    and sep: "is_separator (item_sep it)"
    by (simp_all add: wellformed_def)
  let ?r = "item_gap it @ item_body it @ r"
  have shape: "render_item it @ r = item_num it @ item_sep it # ?r"
    by (simp add: render_item_def)
  have d1: "takeWhile isdigit (render_item it @ r) = item_num it"
    and d2: "dropWhile isdigit (render_item it @ r) = item_sep it # ?r"
    unfolding shape using num(2) separator_not_digit [OF sep] by (rule digits_prefix)+
  show ?thesis
    by (simp add: item_ahead_def starts_item_def d1 d2 num(1) sep)
qed

lemma render_plan_Cons:
  "its \<noteq> [] \<Longrightarrow> \<exists>r. render_plan its = render_item (hd its) @ r"
  by (cases its rule: render_plan.cases) simp_all

lemma finditer_render_plan:
  assumes "list_all wellformed its"
  shows "finditer True (render_plan its) = map (\<lambda>it. (item_num it, item_body it)) its"
  using assms
proof (induction its rule: render_plan.induct)
  case 1
  show ?case by simp
next
  case (2 it)
  then have wf: "wellformed it" by simp
  have "lookahead []" by (simp add: lookahead_def)
  with wf have "finditer True (render_item it @ []) = (item_num it, item_body it) # finditer False []"
    by (rule finditer_wellformed)
  then show ?case by simp
next
  case (3 it it' its)
  then have wf: "wellformed it" and wf': "wellformed it'" and rest: "list_all wellformed (it' # its)"
    by simp_all
  let ?T = "NL # replicate (item_blank it) NL @ render_plan (it' # its)"
  obtain r where r: "render_plan (it' # its) = render_item it' @ r"
    using render_plan_Cons [of "it' # its"] by auto
  have T: "lookahead ?T"
  proof (cases "item_blank it")
    case 0
    then show ?thesis
      using item_ahead_render [OF wf', of r] by (simp add: lookahead_def r)
  next
    case (Suc k)
    then show ?thesis by (simp add: lookahead_def)
  qed
  have "finditer True (render_plan (it # it' # its)) =
      (item_num it, item_body it) # finditer False ?T"
    using finditer_wellformed [OF wf T] by simp
  also have "finditer False ?T = finditer True (replicate (item_blank it) NL @ render_plan (it' # its))"
    by simp
  also have "\<dots> = finditer True (render_plan (it' # its))"
    by (rule finditer_blank)
  also have "\<dots> = map (\<lambda>it. (item_num it, item_body it)) (it' # its)"
    using rest by (rule "3.IH")
  finally show ?case by simp
qed

text \<open>Trimming first and joining the lines then is joining the lines and trimming.\<close>

lemma isspace_replace: "isspace (if c = NL then CHR '' '' else c) = isspace c"
  by (simp add: isspace_def)

lemma replace_newlines_dropWhile:
  "replace_newlines (dropWhile isspace s) = dropWhile isspace (replace_newlines s)"
  by (induction s) (simp_all add: replace_newlines_def isspace_replace)

lemma replace_newlines_rev: "replace_newlines (rev s) = rev (replace_newlines s)"
  by (simp add: replace_newlines_def rev_map)

lemma replace_newlines_strip: "replace_newlines (strip s) = strip (replace_newlines s)"
  by (simp add: strip_def replace_newlines_rev replace_newlines_dropWhile)

lemma replace_newlines_line: "NL \<notin> set l \<Longrightarrow> replace_newlines l = l"
  unfolding replace_newlines_def by (induction l) auto

lemma replace_newlines_join:
  "\<forall>l\<in>set ls. NL \<notin> set l \<Longrightarrow> replace_newlines (join [NL] ls) = join '' '' ls"
proof (induction ls rule: induct_list012)
  case 1
  show ?case by (simp add: replace_newlines_def)
next
  case (2 x)
  then show ?case by (simp add: replace_newlines_line)
next
  case (3 x y zs)
  then have "replace_newlines (join [NL] (y # zs)) = join '' '' (y # zs)"
    and "replace_newlines x = x"
    by (simp_all add: replace_newlines_line)
  moreover have "replace_newlines (x @ [NL] @ r) = replace_newlines x @ '' '' @ replace_newlines r"
    for r by (simp add: replace_newlines_def)
  ultimately show ?case by simp
qed

lemma task_text_wellformed:
  assumes "wellformed it"
  shows "replace_newlines (strip (item_body it)) = strip (join '' '' (item_lines it))"
proof -
  from assms have "\<forall>l\<in>set (item_lines it). NL \<notin> set l"
    by (simp add: wellformed_def list_all_iff)
  then show ?thesis
    by (simp add: replace_newlines_strip item_body_def replace_newlines_join)
qed

text \<open>
  Claim C6, as the specification states it: the parser returns three tasks for the text
  \<open>spec_plan\<close>, with the numbers 1, 2, 3. It returns two: in the line
  \<^verbatim>\<open>3 - Summarize\<close> a blank stands between the number and the separator, and the
  pattern wants the separator right after the digits.
\<close>

theorem parse_tasks_example_counterexample:
  "parse_tasks spec_plan =
     [\<lparr>num = ''1'', task_text = ''Find data - details''\<rparr>,
      \<lparr>num = ''2'', task_text = ''Check sources''\<rparr>]
   \<and> length (parse_tasks spec_plan) \<noteq> 3"
  by (simp add: parse_tasks_def spec_plan_def match_item_def isdigit_def isspace_def
      is_separator_def lookahead_def item_ahead_def starts_item_def strip_def
      replace_newlines_def)

text \<open>
  Claim C6, amended: for the text \<open>spec_plan\<close> the parser returns the two tasks 1 and 2
  with their bodies as written. In general, for a plan of well-formed items (an
  integer, one of the separators \<^verbatim>\<open>.\<close>, \<^verbatim>\<open>)\<close>, \<^verbatim>\<open>-\<close> right after it, any whitespace,
  a body of one or more lines), each starting a line of its own, with any number of
  blank lines between them, the parser returns every item, in the order of the text,
  with its number as written and its body as written, the lines joined by single
  blanks and the result trimmed.
\<close>

theorem parse_tasks_wellformed:
  "parse_tasks spec_plan =
     [\<lparr>num = ''1'', task_text = ''Find data - details''\<rparr>,
      \<lparr>num = ''2'', task_text = ''Check sources''\<rparr>]
   \<and> (\<forall>its. list_all wellformed its \<longrightarrow> parse_tasks (render_plan its) = map task_of its)"
proof (intro conjI allI impI)
  show "parse_tasks spec_plan =
     [\<lparr>num = ''1'', task_text = ''Find data - details''\<rparr>,
      \<lparr>num = ''2'', task_text = ''Check sources''\<rparr>]"
    by (simp add: parse_tasks_def spec_plan_def match_item_def isdigit_def isspace_def
        is_separator_def lookahead_def item_ahead_def starts_item_def strip_def
        replace_newlines_def)
next
  fix its
  assume wf: "list_all wellformed its"
  then have "finditer True (render_plan its) = map (\<lambda>it. (item_num it, item_body it)) its"
    by (rule finditer_render_plan)
  moreover have "\<forall>it\<in>set its.
      replace_newlines (strip (item_body it)) = strip (join '' '' (item_lines it))"
    using wf by (auto simp: list_all_iff intro: task_text_wellformed)
  ultimately show "parse_tasks (render_plan its) = map task_of its"
    by (simp add: parse_tasks_def task_of_def)
qed

theorem parse_tasks_wellformed_witness:
  "list_all wellformed spec_items
   \<and> render_plan spec_items =
       ''1. Find data - details'' @ [NL] @ ''2) Check sources'' @ [NL] @ ''and dates '' @
       [NL, NL] @ ''3- Summarize''
   \<and> parse_tasks (render_plan spec_items) =
     [\<lparr>num = ''1'', task_text = ''Find data - details''\<rparr>,
      \<lparr>num = ''2'', task_text = ''Check sources and dates''\<rparr>,
      \<lparr>num = ''3'', task_text = ''Summarize''\<rparr>]"
proof -
  have wf: "list_all wellformed spec_items"
    by (simp add: spec_items_def wellformed_def isdigit_def isspace_def is_separator_def
        starts_item_def)
  have "parse_tasks (render_plan spec_items) = map task_of spec_items"
    using parse_tasks_wellformed wf by blast
  moreover have "map task_of spec_items = [\<lparr>num = ''1'', task_text = ''Find data - details''\<rparr>,
      \<lparr>num = ''2'', task_text = ''Check sources and dates''\<rparr>,
      \<lparr>num = ''3'', task_text = ''Summarize''\<rparr>]"
    by (simp add: spec_items_def task_of_def strip_def isspace_def)
  moreover have "render_plan spec_items =
       ''1. Find data - details'' @ [NL] @ ''2) Check sources'' @ [NL] @ ''and dates '' @
       [NL, NL] @ ''3- Summarize''"
    by (simp add: spec_items_def render_item_def item_body_def)
  ultimately show ?thesis using wf by simp
qed

section \<open>Properties of the phase orchestrator\<close>

text \<open>The session states of the example run.\<close>

lemma planned_eq:
  "planned = \<lparr>plan_id = Some ''p1'', plan_text = Some ''1. Survey'',
     tasks = [\<lparr>num = ''1'', task_text = ''Survey''\<rparr>], research_id = None,
     research_text = None, synthesis_text = None, infographic = None\<rparr>"
  by (simp add: planned_def main_def click_def plan_phase_def research_phase_def
      synthesis_phase_def good_client_def answer_def plan_request_def defaults_def
      init_session_state_def
      plan_reply_def get_text_def truthy_def
      MODEL_PLANNER_def MODEL_RESEARCH_AGENT_def
      parse_tasks_def match_item_def isdigit_def isspace_def
      is_separator_def lookahead_def item_ahead_def starts_item_def strip_def
      replace_newlines_def)

lemma researched_eq:
  "researched = \<lparr>plan_id = Some ''p1'', plan_text = Some ''1. Survey'',
     tasks = [\<lparr>num = ''1'', task_text = ''Survey''\<rparr>], research_id = Some ''r1'',
     research_text = Some ''Findings'', synthesis_text = None, infographic = None\<rparr>"
  by (simp add: researched_def planned_eq main_def click_def plan_phase_def research_phase_def
      selected_tasks_def all_checked_def research_request_def good_client_def answer_def
      running_def finished_def get_text_def truthy_def
      MODEL_RESEARCH_AGENT_def
      finished_job_def wait_for_completion_def wait_loop.simps TIMEOUT_def)

lemma illustrated_eq:
  "illustrated = \<lparr>plan_id = Some ''p1'', plan_text = Some ''1. Survey'',
     tasks = [\<lparr>num = ''1'', task_text = ''Survey''\<rparr>], research_id = Some ''r1'',
     research_text = Some ''Findings'', synthesis_text = Some ''Report'',
     infographic = Some [137, 80]\<rparr>"
  by (simp add: illustrated_def researched_eq main_def click_def plan_phase_def research_phase_def
      synthesis_phase_def synthesis_request_def good_client_def answer_def
      report_reply_def get_text_def truthy_def
      MODEL_RESEARCH_AGENT_def MODEL_PLANNER_def MODEL_SYNTHESIS_def
      picture_def inline_image_def give_picture_def)

text \<open>What each phase leaves alone, and the invariant that every run keeps.\<close>

lemma plan_phase_fields:
  "research_id (plan_phase u c s) = research_id s"
  "research_text (plan_phase u c s) = research_text s"
  "synthesis_text (plan_phase u c s) = synthesis_text s"
  "infographic (plan_phase u c s) = infographic s"
  "plan_id s \<noteq> None \<Longrightarrow> plan_id (plan_phase u c s) \<noteq> None"
  "plan_text (plan_phase u c s) \<noteq> None \<Longrightarrow> plan_text s = None \<Longrightarrow>
     plan_id (plan_phase u c s) \<noteq> None"
  by (auto simp: plan_phase_def split: sum.splits if_splits)

lemma plan_phase_idle: "clicked u \<noteq> GeneratePlan \<Longrightarrow> plan_phase u c s = s"
  by (simp add: plan_phase_def)

lemma research_phase_idle:
  "clicked u \<noteq> StartResearch \<Longrightarrow> research_phase u c s = Continue s"
  by (simp add: research_phase_def)

lemma synthesis_phase_idle: "clicked u \<noteq> GenerateReport \<Longrightarrow> synthesis_phase u c s = s"
  by (simp add: synthesis_phase_def)

lemma plan_phase_inv: "planned_inv s \<Longrightarrow> planned_inv (plan_phase u c s)"
  by (auto simp: planned_inv_def phase_ordered_def plan_phase_def split: sum.splits if_splits)

lemma research_phase_inv:
  "planned_inv s \<Longrightarrow> research_phase u c s = EndRun s' \<or> research_phase u c s = Continue s'
     \<Longrightarrow> planned_inv s'"
  by (auto simp: planned_inv_def phase_ordered_def research_phase_def truthy_def
      split: sum.splits if_splits option.splits)

lemma synthesis_phase_inv: "planned_inv s \<Longrightarrow> planned_inv (synthesis_phase u c s)"
  by (auto simp: planned_inv_def phase_ordered_def synthesis_phase_def truthy_def
      split: sum.splits if_splits option.splits)

lemma main_inv:
  assumes "planned_inv s"
  shows "planned_inv (main u c s)"
proof -
  have reset: "planned_inv (reset_session_state s)"
    by (simp add: planned_inv_def phase_ordered_def reset_session_state_def)
  have p: "planned_inv (plan_phase u c s)"
    using assms by (rule plan_phase_inv)
  show ?thesis
  proof (cases "research_phase u c (plan_phase u c s)")
    case (Continue s')
    with p have "planned_inv s'" using research_phase_inv by blast
    then have "planned_inv (synthesis_phase u c s')" by (rule synthesis_phase_inv)
    with Continue reset assms show ?thesis by (simp add: main_def)
  next
    case (EndRun s')
    with p have "planned_inv s'" using research_phase_inv by blast
    with EndRun reset assms show ?thesis by (simp add: main_def)
  qed
qed

lemma reachable_inv: "reachable s \<Longrightarrow> planned_inv s"
proof (induction rule: reachable.induct)
  case start
  show ?case
    by (simp add: planned_inv_def phase_ordered_def defaults_def init_session_state_def)
next
  case (run s u c)
  then show ?case by (simp add: main_inv)
qed

lemma synthesis_phase_research_id: "research_id (synthesis_phase u c s) = research_id s"
  by (auto simp: synthesis_phase_def split: sum.splits option.splits)

lemma research_set_only_by_research:
  assumes "research_id (main u c s) \<noteq> research_id s" and "research_id (main u c s) \<noteq> None"
  shows "clicked u = StartResearch \<and> selected_tasks u s \<noteq> [] \<and> truthy (plan_text s)"
proof -
  have click: "clicked u = StartResearch"
  proof (rule ccontr)
    assume other: "clicked u \<noteq> StartResearch"
    have "research_id (main u c s) = research_id s \<or> research_id (main u c s) = None"
      using other
      by (simp add: main_def research_phase_idle synthesis_phase_research_id plan_phase_fields
          reset_session_state_def)
    with assms show False by auto
  qed
  then have idle: "plan_phase u c s = s" by (simp add: plan_phase_idle)
  have "selected_tasks u s \<noteq> [] \<and> truthy (plan_text s)"
  proof (rule ccontr)
    assume "\<not> (selected_tasks u s \<noteq> [] \<and> truthy (plan_text s))"
    then have "research_phase u c s = Continue s"
      by (auto simp: research_phase_def)
    with click idle have "research_id (main u c s) = research_id s"
      by (simp add: main_def synthesis_phase_idle)
    with assms(1) show False by contradiction
  qed
  with click show ?thesis by simp
qed

lemma synthesis_set_only_by_report:
  assumes "synthesis_text (main u c s) \<noteq> synthesis_text s"
    and "synthesis_text (main u c s) \<noteq> None"
  shows "clicked u = GenerateReport \<and> truthy (research_id s)"
proof -
  have click: "clicked u = GenerateReport"
  proof (rule ccontr)
    assume other: "clicked u \<noteq> GenerateReport"
    have keep: "synthesis_text s' = synthesis_text s"
      if "research_phase u c (plan_phase u c s) = EndRun s'
          \<or> research_phase u c (plan_phase u c s) = Continue s'" for s'
      using that plan_phase_fields(3) [of u c s]
      by (auto simp: research_phase_def split: if_splits sum.splits)
    have "synthesis_text (main u c s) = synthesis_text s \<or> synthesis_text (main u c s) = None"
      using other keep
      by (cases "research_phase u c (plan_phase u c s)")
         (simp_all add: main_def synthesis_phase_idle reset_session_state_def)
    with assms show False by auto
  qed
  then have "plan_phase u c s = s" and "research_phase u c s = Continue s"
    by (simp_all add: plan_phase_idle research_phase_idle)
  with click assms(1) have "truthy (research_id s)"
    by (auto simp: main_def synthesis_phase_def split: if_splits)
  with click show ?thesis by simp
qed

text \<open>
  Claim C1: in every reachable session state, the research interaction id is set only
  if the plan interaction id is set, and the synthesis text is set only if the research
  interaction id is set. A run gives the research interaction id a new value only when
  the research button was clicked with at least one task selected, in a state whose
  plan interaction id is set; and it gives the synthesis text a new value only when the
  report button was clicked in a state whose research interaction id is set.
\<close>

theorem phase_order:
  assumes "reachable s"
  shows "(research_id s \<noteq> None \<longrightarrow> plan_id s \<noteq> None)
    \<and> (synthesis_text s \<noteq> None \<longrightarrow> research_id s \<noteq> None)
    \<and> (\<forall>u c. research_id (main u c s) \<noteq> research_id s \<and> research_id (main u c s) \<noteq> None \<longrightarrow>
          plan_id s \<noteq> None \<and> clicked u = StartResearch \<and> selected_tasks u s \<noteq> [])
    \<and> (\<forall>u c. synthesis_text (main u c s) \<noteq> synthesis_text s \<and> synthesis_text (main u c s) \<noteq> None \<longrightarrow>
          research_id s \<noteq> None \<and> clicked u = GenerateReport)"
proof -
  from assms have inv: "planned_inv s" by (rule reachable_inv)
  then have order: "phase_ordered s" and plan: "plan_text s \<noteq> None \<longrightarrow> plan_id s \<noteq> None"
    by (simp_all add: planned_inv_def)
  have research: "plan_id s \<noteq> None \<and> clicked u = StartResearch \<and> selected_tasks u s \<noteq> []"
    if "research_id (main u c s) \<noteq> research_id s" "research_id (main u c s) \<noteq> None" for u c
    using research_set_only_by_research [OF that] plan by (auto simp: truthy_def split: option.splits)
  have report: "research_id s \<noteq> None \<and> clicked u = GenerateReport"
    if "synthesis_text (main u c s) \<noteq> synthesis_text s" "synthesis_text (main u c s) \<noteq> None" for u c
    using synthesis_set_only_by_report [OF that] by (auto simp: truthy_def split: option.splits)
  from order research report show ?thesis
    unfolding phase_ordered_def by blast
qed

lemma reachable_planned: "reachable planned"
  unfolding planned_def by (intro reachable.intros)

lemma reachable_researched: "reachable researched"
  unfolding researched_def planned_def by (intro reachable.intros)


lemma planned_selected: "selected_tasks (click StartResearch) planned = [''1. Survey'']"
  by (simp add: planned_eq selected_tasks_def click_def all_checked_def)

theorem phase_order_witness:
  "reachable planned
   \<and> research_id planned = None
   \<and> research_id (main (click StartResearch) good_client planned) = Some ''r1''
   \<and> plan_id planned = Some ''p1''
   \<and> clicked (click StartResearch) = StartResearch
   \<and> selected_tasks (click StartResearch) planned = [''1. Survey'']
   \<and> reachable researched
   \<and> synthesis_text researched = None
   \<and> synthesis_text (main (click GenerateReport) good_client researched) = Some ''Report''
   \<and> research_id researched = Some ''r1''
   \<and> plan_id researched = Some ''p1''"
proof -
  have r: "research_id (main (click StartResearch) good_client planned) = Some ''r1''"
    unfolding researched_def [symmetric] by (simp add: researched_eq)
  have t: "synthesis_text (main (click GenerateReport) good_client researched) = Some ''Report''"
    unfolding illustrated_def [symmetric] by (simp add: illustrated_eq)
  have p0: "research_id planned = None" and r0: "synthesis_text researched = None"
    by (simp_all add: planned_eq researched_eq)
  from phase_order [OF reachable_planned]
  have "research_id (main (click StartResearch) good_client planned) \<noteq> research_id planned
      \<and> research_id (main (click StartResearch) good_client planned) \<noteq> None
    \<longrightarrow> plan_id planned \<noteq> None \<and> clicked (click StartResearch) = StartResearch
      \<and> selected_tasks (click StartResearch) planned \<noteq> []"
    by blast
  with r p0
  have a: "plan_id planned \<noteq> None \<and> clicked (click StartResearch) = StartResearch
      \<and> selected_tasks (click StartResearch) planned \<noteq> []"
    by simp
  from phase_order [OF reachable_researched]
  have "synthesis_text (main (click GenerateReport) good_client researched)
        \<noteq> synthesis_text researched
      \<and> synthesis_text (main (click GenerateReport) good_client researched) \<noteq> None
    \<longrightarrow> research_id researched \<noteq> None \<and> clicked (click GenerateReport) = GenerateReport"
    by blast
  with t r0
  have b: "research_id researched \<noteq> None \<and> clicked (click GenerateReport) = GenerateReport"
    by simp
  from a b r t p0 r0 reachable_planned reachable_researched planned_selected
  show ?thesis
    by (simp add: planned_eq researched_eq)
qed

text \<open>
  Claim C2: when the remote client raises in the create call of Generate Plan, or in the
  synthesis call of Generate Report, the run leaves the session state as it was: no
  field changes and no phase is entered.
\<close>

theorem remote_failure_atomic:
  "(clicked u = GeneratePlan \<and> interactions_create c (plan_request (research_goal u)) = Inl e
      \<longrightarrow> main u c s = s)
   \<and> (clicked u = GenerateReport \<and> interactions_create c (synthesis_request s) = Inl e
      \<longrightarrow> main u c s = s)"
  by (simp add: main_def plan_phase_def research_phase_def synthesis_phase_def)

theorem remote_failure_atomic_witness:
  "clicked (click GeneratePlan) = GeneratePlan
   \<and> interactions_create down_client (plan_request (research_goal (click GeneratePlan)))
       = Inl (RemoteError ''service unavailable'')
   \<and> main (click GeneratePlan) down_client researched = researched
   \<and> clicked (click GenerateReport) = GenerateReport
   \<and> interactions_create down_client (synthesis_request researched)
       = Inl (RemoteError ''service unavailable'')
   \<and> main (click GenerateReport) down_client researched = researched"
  using remote_failure_atomic [of "click GeneratePlan" down_client
      "RemoteError ''service unavailable''" researched]
    remote_failure_atomic [of "click GenerateReport" down_client
      "RemoteError ''service unavailable''" researched]
  by (simp add: click_def down_client_def create_unavailable_def)







section \<open>Properties of the document exporters\<close>

text \<open>
  Claim C8, as the specification states it: for the line \<^verbatim>\<open>**bold** and plain\<close> the
  body of the document is one paragraph with exactly two runs, the bold run first. The
  split of the line starts with the empty text before the bold span, and that text is
  added as a run too.
\<close>

theorem generate_docx_two_runs_counterexample:
  "tl (generate_docx (uni ''**bold** and plain'')) \<noteq>
     [Paragraph [Run (uni ''bold'') True, Run (uni '' and plain'') False]]
   \<and> re_split_bold (uni ''**bold** and plain'') = [[], uni ''**bold**'', uni '' and plain'']"
  by (simp add: generate_docx_def docx_line_def uni_def ustrip_def uspace_def startswith_def
      endswith_def match_bold_def add_run_def)

text \<open>
  Claim C8, amended: for the line \<^verbatim>\<open>**bold** and plain\<close> the document is the title
  heading and one paragraph of three runs: an empty run that is not bold, the run
  \<^verbatim>\<open>bold\<close> in bold, and the run \<^verbatim>\<open> and plain\<close> that is not bold.
\<close>

theorem generate_docx_bold_runs:
  "generate_docx (uni ''**bold** and plain'') =
     [Heading (uni ''Research Report'') 0,
      Paragraph [Run [] False, Run (uni ''bold'') True, Run (uni '' and plain'') False]]"
  by (simp add: generate_docx_def docx_line_def uni_def ustrip_def uspace_def startswith_def
      endswith_def match_bold_def add_run_def)

text \<open>The texts that reach the PDF are Latin-1, whatever the input.\<close>

lemma latin1_clean_text: "latin1 (clean_text t)"
  by (induction t) (simp_all add: latin1_def clean_text_def)

lemma clean_text_idem: "clean_text (clean_text t) = clean_text t"
  by (induction t) (simp_all add: clean_text_def)

lemma latin1_subset: "latin1 t \<Longrightarrow> set s \<subseteq> set t \<Longrightarrow> latin1 s"
  by (auto simp: latin1_def list_all_iff)

lemma set_ustrip: "set (ustrip s) \<subseteq> set s"
proof -
  have "set (ustrip s) \<subseteq> set (dropWhile uspace s)"
    unfolding ustrip_def using set_dropWhileD [of _ uspace "rev (dropWhile uspace s)"] by auto
  also have "\<dots> \<subseteq> set s"
    using set_dropWhileD [of _ uspace s] by auto
  finally show ?thesis .
qed

lemma set_remove_pair: "set (remove_pair m s) \<subseteq> set s"
  by (induction m s rule: remove_pair.induct) auto

lemma latin1_title: "latin1 t \<Longrightarrow> latin1 (ustrip (drop n t))"
  using set_ustrip [of "drop n t"] set_drop_subset [of n t]
  by (blast intro: latin1_subset)

lemma latin1_plain: "latin1 t \<Longrightarrow> latin1 (remove_pair 95 (remove_pair 42 t))"
  using set_remove_pair [of 95 "remove_pair 42 t"] set_remove_pair [of 42 t]
  by (blast intro: latin1_subset)

lemma latin1_bullet: "latin1 t \<Longrightarrow> latin1 (149 # 32 # t)"
  by (simp add: latin1_def)

lemma multi_cell_ok: "latin1 t \<Longrightarrow> all_latin1 (multi_cell w h t)"
  by (simp add: all_latin1_def multi_cell_def rendered_latin1_def)

lemma run_all_ok: "list_all all_latin1 rs \<Longrightarrow> all_latin1 (run_all rs)"
  by (induction rs) (auto simp: all_latin1_def split: sum.splits)

lemma ops_ok: "list_all rendered_latin1 ops \<Longrightarrow> all_latin1 (Inr ops)"
  by (simp add: all_latin1_def)

lemma heading_cell_ok: "latin1 t \<Longrightarrow> all_latin1 (heading_cell n t)"
  unfolding heading_cell_def
  by (rule run_all_ok) (simp add: multi_cell_ok ops_ok rendered_latin1_def)

lemma bullet_cell_ok: "latin1 t \<Longrightarrow> all_latin1 (bullet_cell t)"
  unfolding bullet_cell_def
  by (rule run_all_ok) (simp add: multi_cell_ok latin1_bullet ops_ok rendered_latin1_def)

lemma pdf_line_ok: "all_latin1 (pdf_line raw)"
proof -
  have l: "latin1 (clean_text raw)" by (rule latin1_clean_text)
  show ?thesis
    unfolding pdf_line_def Let_def
    by (simp add: heading_cell_ok bullet_cell_ok latin1_title latin1_plain multi_cell_ok l
        ops_ok rendered_latin1_def)
qed

lemma generate_pdf_ok: "all_latin1 (generate_pdf t)"
  unfolding generate_pdf_def
  by (rule run_all_ok) (simp add: list_all_iff pdf_line_ok ops_ok rendered_latin1_def)

lemma split_on_clean_text: "split_on 10 (clean_text t) = map clean_text (split_on 10 t)"
proof (induction t)
  case Nil
  show ?case by (simp add: clean_text_def)
next
  case (Cons c t)
  obtain l ls where "split_on 10 t = l # ls"
    by (cases t; cases "split_on 10 t") (auto split: if_splits list.splits)
  with Cons show ?case
    by (auto simp: clean_text_def)
qed

lemma pdf_line_clean_text: "pdf_line (clean_text raw) = pdf_line raw"
  by (simp add: pdf_line_def clean_text_idem)

text \<open>
  Claim C9: for every input text, \<^verbatim>\<open>generate_pdf\<close> does not raise on characters
  without a Latin-1 encoding. It returns a document, every text of which is Latin-1;
  it gives the same document as for the text in which each code point above 255 is
  replaced by a question mark, which is what \<^verbatim>\<open>clean_text\<close> computes.
\<close>

theorem generate_pdf_never_raises:
  "(\<exists>ops. generate_pdf t = Inr ops \<and> list_all rendered_latin1 ops)
   \<and> generate_pdf t = generate_pdf (clean_text t)
   \<and> clean_text t = map (\<lambda>c. if c < 256 then c else of_char (CHR ''?'')) t"
proof -
  have "all_latin1 (generate_pdf t)" by (rule generate_pdf_ok)
  then have "\<exists>ops. generate_pdf t = Inr ops \<and> list_all rendered_latin1 ops"
    by (cases "generate_pdf t") (simp_all add: all_latin1_def)
  moreover have "generate_pdf t = generate_pdf (clean_text t)"
    by (simp add: generate_pdf_def split_on_clean_text pdf_line_clean_text comp_def)
  moreover have "clean_text t = map (\<lambda>c. if c < 256 then c else of_char (CHR ''?'')) t"
    by (simp add: clean_text_def)
  ultimately show ?thesis by simp
qed

theorem generate_pdf_never_raises_witness:
  "generate_pdf emoji_report =
     Inr [AddPage, SetAutoPageBreak 15, SetFont ''Helvetica'' [] 12,
          MultiCell 0 8 (uni ''? Report''),
          SetX 20, MultiCell 0 8 ([149, 32] @ uni ''caf'' @ [233, 63])]"
  using generate_pdf_never_raises [of emoji_report]
  by (simp add: emoji_report_def generate_pdf_def pdf_line_def clean_text_def uni_def ustrip_def uspace_def
      startswith_def multi_cell_def latin1_def bullet_cell_def heading_cell_def)

end
